theory Spec2Isabelle
  imports Complex_Main "HOL-Library.AList" "HOL-Library.Multiset"
begin

section \<open>Configuration and input rows\<close>

text \<open>
  The script reads one global \<^verbatim>\<open>CONFIG\<close> object. It is passed explicitly here.
  Counts are integers, every other number is an exact rational.
\<close>

record config =
  MIN_IMPRESSIONS :: int
  MIN_CLICKS :: int
  NGRAM_SIZES :: "int list"
  HIGH_CTR_THRESHOLD :: rat
  LOW_CTR_THRESHOLD :: rat
  HIGH_CONV_RATE :: rat
  HIGH_CPA_MULTIPLIER :: rat
  TARGET_CPA :: rat
  STOP_WORDS :: "string list"

definition CONFIG :: config where
  "CONFIG = \<lparr> MIN_IMPRESSIONS = 50, MIN_CLICKS = 5, NGRAM_SIZES = [1, 2, 3],
     HIGH_CTR_THRESHOLD = 5 / 100, LOW_CTR_THRESHOLD = 1 / 100, HIGH_CONV_RATE = 3 / 100,
     HIGH_CPA_MULTIPLIER = 2, TARGET_CPA = 0,
     STOP_WORDS = [''a'', ''an'', ''the'', ''and'', ''or'', ''but'', ''in'', ''on'', ''at'', ''to'', ''for'',
       ''of'', ''with'', ''by'', ''from'', ''as'', ''is'', ''was'', ''are'', ''were'', ''been'',
       ''be'', ''have'', ''has'', ''had'', ''do'', ''does'', ''did'', ''will'', ''would'',
       ''could'', ''should'', ''may'', ''might'', ''must'', ''shall'', ''can'', ''need'',
       ''it'', ''its'', ''my'', ''your'', ''our'', ''their'', ''this'', ''that'', ''these'',
       ''those'', ''i'', ''you'', ''he'', ''she'', ''we'', ''they'', ''what'', ''which'',
       ''who'', ''whom'', ''how'', ''when'', ''where'', ''why''] \<rparr>"

text \<open>One element of \<^verbatim>\<open>queryData\<close>, as \<^verbatim>\<open>getSearchQueryData\<close> pushes it.\<close>

record query_row =
  q_query :: string
  q_campaign :: string
  q_impressions :: int
  q_clicks :: int
  q_cost :: rat
  q_conversions :: rat
  q_conversionValue :: rat

section \<open>Strings\<close>

text \<open>
  A string is a list of 8-bit characters, read as the code units U+0000 to U+00FF.
  \<^verbatim>\<open>\s\<close> matches, in that range, tab, line feed, vertical tab, form feed, carriage
  return, space and no-break space.
\<close>

definition isWhiteSpace :: "char \<Rightarrow> bool" where
  "isWhiteSpace c \<longleftrightarrow> (of_char c :: nat) \<in> {9, 10, 11, 12, 13, 32, 160}"

definition toLowerChar :: "char \<Rightarrow> char" where
  "toLowerChar c =
     (let n = (of_char c :: nat)
      in if (65 \<le> n \<and> n \<le> 90) \<or> (192 \<le> n \<and> n \<le> 222 \<and> n \<noteq> 215)
         then char_of (n + 32) else c)"

definition toLowerCase :: "string \<Rightarrow> string" where
  "toLowerCase s = map toLowerChar s"

text \<open>
  \<^verbatim>\<open>s.split(/\s+/)\<close>: the pieces between maximal runs of white space. A run at the
  start or at the end leaves an empty piece there, and the empty string gives one empty
  piece. The result always has a first piece; the empty case of the \<open>case\<close> is never taken
  (lemma \<open>split_ws_first_piece\<close>).
\<close>

function split_ws :: "string \<Rightarrow> string list" where
  "split_ws [] = [[]]"
| "split_ws (c # cs) =
     (if isWhiteSpace c then [] # split_ws (dropWhile isWhiteSpace cs)
      else (case split_ws cs of [] \<Rightarrow> [[c]] | p # ps \<Rightarrow> (c # p) # ps))"
  by pat_completeness auto
termination
  by (relation "measure length") (auto simp: length_dropWhile_le less_Suc_eq_le)

text \<open>\<^verbatim>\<open>words.join(' ')\<close>.\<close>

fun join_sp :: "string list \<Rightarrow> string" where
  "join_sp [] = []"
| "join_sp [w] = w"
| "join_sp (w # ws) = w @ CHR '' '' # join_sp ws"

text \<open>\<^verbatim>\<open>xs.slice(start, end)\<close> for integer arguments, negative ones counting from the end.\<close>

definition slice :: "'a list \<Rightarrow> int \<Rightarrow> int \<Rightarrow> 'a list" where
  "slice xs start end' =
     (let len = int (length xs);
          k = (if start < 0 then max (len + start) 0 else min start len);
          final = (if end' < 0 then max (len + end') 0 else min end' len)
      in take (nat (final - k)) (drop (nat k) xs))"

section \<open>Tokens and n-grams\<close>

text \<open>
  The names every object literal inherits from \<^verbatim>\<open>Object.prototype\<close>. Reading one of
  them from \<^verbatim>\<open>{}\<close> gives a function or an object, which is truthy.
\<close>

definition object_prototype_props :: "string list" where
  "object_prototype_props =
     [''constructor'', ''__defineGetter__'', ''__defineSetter__'', ''hasOwnProperty'',
      ''__lookupGetter__'', ''__lookupSetter__'', ''isPrototypeOf'', ''propertyIsEnumerable'',
      ''toString'', ''valueOf'', ''__proto__'', ''toLocaleString'']"

text \<open>
  \<^verbatim>\<open>stopWords[word]\<close> read as a condition, where \<^verbatim>\<open>stopWords\<close> is the object literal
  that \<^verbatim>\<open>reduce\<close> fills with one own property per configured stop word.
\<close>

definition stopWords :: "config \<Rightarrow> string \<Rightarrow> bool" where
  "stopWords cfg word \<longleftrightarrow>
     word \<in> set (STOP_WORDS cfg) \<or> word \<in> set object_prototype_props"

text \<open>The \<^verbatim>\<open>words\<close> of one query: \<^verbatim>\<open>query.query.split(/\s+/).filter(...)\<close>.\<close>

definition query_words :: "config \<Rightarrow> string \<Rightarrow> string list" where
  "query_words cfg q =
     filter (\<lambda>word. length word > 1 \<and> \<not> stopWords cfg word) (split_ws q)"

text \<open>
  The tokenizer from the raw report text: \<^verbatim>\<open>getSearchQueryData\<close> lower-cases the
  query, \<^verbatim>\<open>analyzeNgrams\<close> splits and filters it.
\<close>

definition tokenize :: "config \<Rightarrow> string \<Rightarrow> string list" where
  "tokenize cfg raw = query_words cfg (toLowerCase raw)"

text \<open>
  The n-gram loop of \<^verbatim>\<open>analyzeNgrams\<close>, from index \<open>i\<close> on:
  \<^verbatim>\<open>for (; i <= words.length - ngramSize; i++) words.slice(i, i + ngramSize).join(' ')\<close>.
\<close>

function ngrams_from :: "string list \<Rightarrow> int \<Rightarrow> int \<Rightarrow> string list" where
  "ngrams_from words ngramSize i =
     (if i \<le> int (length words) - ngramSize
      then join_sp (slice words i (i + ngramSize)) # ngrams_from words ngramSize (i + 1)
      else [])"
  by pat_completeness auto
termination
  by (relation "measure (\<lambda>(words, ngramSize, i). nat (int (length words) - ngramSize - i + 1))") auto

declare ngrams_from.simps [simp del]

definition generate_ngrams :: "string list \<Rightarrow> int \<Rightarrow> string list" where
  "generate_ngrams words ngramSize = ngrams_from words ngramSize 0"

section \<open>Aggregation\<close>

text \<open>
  The entry stored under one n-gram while the queries are read, and the entry after the
  derived metrics have been added to it.
\<close>

record ngram_totals =
  ngram :: string
  queries :: nat
  impressions :: int
  clicks :: int
  cost :: rat
  conversions :: rat
  conversionValue :: rat

record ngram_stats = ngram_totals +
  ctr :: rat
  cpc :: rat
  convRate :: rat
  cpa :: rat
  roas :: rat

text \<open>
  An object used as a dictionary is an association list with distinct keys, in the order
  in which the keys were first assigned.
\<close>

type_synonym 'a js_object = "(string \<times> 'a) list"

definition new_entry :: "string \<Rightarrow> ngram_totals" where
  "new_entry key = \<lparr> ngram = key, queries = 0, impressions = 0, clicks = 0, cost = 0,
     conversions = 0, conversionValue = 0 \<rparr>"

definition add_query :: "query_row \<Rightarrow> ngram_totals \<Rightarrow> ngram_totals" where
  "add_query q e = e \<lparr> queries := queries e + 1,
     impressions := impressions e + q_impressions q,
     clicks := clicks e + q_clicks q,
     cost := cost e + q_cost q,
     conversions := conversions e + q_conversions q,
     conversionValue := conversionValue e + q_conversionValue q \<rparr>"

text \<open>
  The body of the n-gram loop. \<^verbatim>\<open>ngrams[ngram]\<close> is truthy for an own entry and for an
  inherited name; for an inherited name no entry is created and the updates go to the
  inherited value, so the own entries stay as they are.
\<close>

definition count_ngram :: "query_row \<Rightarrow> string \<Rightarrow> ngram_totals js_object \<Rightarrow> ngram_totals js_object" where
  "count_ngram q key ngrams =
     (if key \<in> set object_prototype_props then ngrams
      else (case map_of ngrams key of
              None \<Rightarrow> AList.update key (add_query q (new_entry key)) ngrams
            | Some e \<Rightarrow> AList.update key (add_query q e) ngrams))"

text \<open>The body of \<^verbatim>\<open>queryData.forEach\<close>.\<close>

definition count_query :: "config \<Rightarrow> int \<Rightarrow> query_row \<Rightarrow> ngram_totals js_object \<Rightarrow> ngram_totals js_object" where
  "count_query cfg ngramSize q ngrams =
     fold (count_ngram q) (generate_ngrams (query_words cfg (q_query q)) ngramSize) ngrams"

definition count_all :: "config \<Rightarrow> query_row list \<Rightarrow> int \<Rightarrow> ngram_totals js_object" where
  "count_all cfg queryData ngramSize = fold (count_query cfg ngramSize) queryData []"

text \<open>The derived metrics, each guarded by \<^verbatim>\<open>denominator > 0 ? ... : 0\<close>.\<close>

definition derive :: "ngram_totals \<Rightarrow> ngram_stats" where
  "derive e = \<lparr> ngram = ngram e, queries = queries e, impressions = impressions e,
     clicks = clicks e, cost = cost e, conversions = conversions e,
     conversionValue = conversionValue e,
     ctr = (if impressions e > 0 then of_int (clicks e) / of_int (impressions e) else 0),
     cpc = (if clicks e > 0 then cost e / of_int (clicks e) else 0),
     convRate = (if clicks e > 0 then conversions e / of_int (clicks e) else 0),
     cpa = (if conversions e > 0 then cost e / conversions e else 0),
     roas = (if cost e > 0 then conversionValue e / cost e else 0) \<rparr>"

definition analyzeNgrams :: "config \<Rightarrow> query_row list \<Rightarrow> int \<Rightarrow> ngram_stats js_object" where
  "analyzeNgrams cfg queryData ngramSize =
     map (\<lambda>(key, e). (key, derive e)) (count_all cfg queryData ngramSize)"

section \<open>Enumeration order\<close>

text \<open>
  \<^verbatim>\<open>for (var key in obj)\<close> visits the keys that are array indices (canonical decimal
  numerals below \<open>2^32 - 1\<close>) first, in increasing numeric order, and then the other keys
  in the order of their creation.
\<close>

definition isDigit :: "char \<Rightarrow> bool" where
  "isDigit c \<longleftrightarrow> 48 \<le> (of_char c :: nat) \<and> (of_char c :: nat) \<le> 57"

definition decimal_value :: "string \<Rightarrow> nat" where
  "decimal_value s = foldl (\<lambda>a c. 10 * a + (of_char c - 48)) 0 s"

definition is_array_index :: "string \<Rightarrow> bool" where
  "is_array_index key \<longleftrightarrow>
     key \<noteq> [] \<and> list_all isDigit key \<and> (key = ''0'' \<or> hd key \<noteq> CHR ''0'')
     \<and> decimal_value key < 2 ^ 32 - 1"

definition for_in :: "'a js_object \<Rightarrow> 'a js_object" where
  "for_in obj =
     sort_key (\<lambda>(key, v). decimal_value key) (filter (\<lambda>(key, v). is_array_index key) obj)
     @ filter (\<lambda>(key, v). \<not> is_array_index key) obj"

section \<open>Recommendations\<close>

record keyword_rec =
  kw_ngram :: string
  kw_size :: int
  kw_reason :: string
  kw_impressions :: int
  kw_clicks :: int
  kw_ctr :: rat
  kw_conversions :: rat
  kw_convRate :: rat
  kw_cpa :: rat

record negative_rec =
  neg_ngram :: string
  neg_size :: int
  neg_reason :: string
  neg_impressions :: int
  neg_clicks :: int
  neg_ctr :: rat
  neg_cost :: rat
  neg_conversions :: rat
  neg_cpa :: rat

record recommendations =
  keywords' :: "keyword_rec list"
  negatives :: "negative_rec list"

definition keyword_of :: "config \<Rightarrow> int \<Rightarrow> ngram_stats \<Rightarrow> keyword_rec" where
  "keyword_of cfg size' ng = \<lparr> kw_ngram = ngram ng, kw_size = size',
     kw_reason = (if convRate ng \<ge> HIGH_CONV_RATE cfg then ''High conversion rate'' else ''High CTR''),
     kw_impressions = impressions ng, kw_clicks = clicks ng, kw_ctr = ctr ng,
     kw_conversions = conversions ng, kw_convRate = convRate ng, kw_cpa = cpa ng \<rparr>"

definition negative_of :: "config \<Rightarrow> int \<Rightarrow> ngram_stats \<Rightarrow> negative_rec" where
  "negative_of cfg size' ng = \<lparr> neg_ngram = ngram ng, neg_size = size',
     neg_reason = (if ctr ng \<le> LOW_CTR_THRESHOLD cfg then ''Low CTR'' else ''High CPA''),
     neg_impressions = impressions ng, neg_clicks = clicks ng, neg_ctr = ctr ng,
     neg_cost = cost ng, neg_conversions = conversions ng, neg_cpa = cpa ng \<rparr>"

text \<open>
  The body of the \<^verbatim>\<open>for (var key in ngrams)\<close> loop of \<^verbatim>\<open>generateRecommendations\<close>:
  \<^verbatim>\<open>continue\<close> below the impression floor, and both tests inside the click floor.
\<close>

definition classify :: "config \<Rightarrow> int \<Rightarrow> ngram_stats \<Rightarrow> recommendations \<Rightarrow> recommendations" where
  "classify cfg size' ng recs =
     (if impressions ng < MIN_IMPRESSIONS cfg then recs
      else if clicks ng \<ge> MIN_CLICKS cfg then
        (let recs1 =
               (if ctr ng \<ge> HIGH_CTR_THRESHOLD cfg \<or> convRate ng \<ge> HIGH_CONV_RATE cfg
                then recs \<lparr> keywords' := keywords' recs @ [keyword_of cfg size' ng] \<rparr>
                else recs)
         in if ctr ng \<le> LOW_CTR_THRESHOLD cfg
               \<or> (TARGET_CPA cfg > 0 \<and> cpa ng > TARGET_CPA cfg * HIGH_CPA_MULTIPLIER cfg)
            then recs1 \<lparr> negatives := negatives recs1 @ [negative_of cfg size' ng] \<rparr>
            else recs1)
      else recs)"

text \<open>The body of \<^verbatim>\<open>CONFIG.NGRAM_SIZES.forEach\<close>; a size with no map is skipped.\<close>

definition classify_size ::
  "config \<Rightarrow> (int \<times> ngram_stats js_object) list \<Rightarrow> int \<Rightarrow> recommendations \<Rightarrow> recommendations" where
  "classify_size cfg ngramResults size' recs =
     (case map_of ngramResults size' of
        None \<Rightarrow> recs
      | Some ngrams \<Rightarrow> fold (\<lambda>(key, ng). classify cfg size' ng) (for_in ngrams) recs)"

definition classify_all :: "config \<Rightarrow> (int \<times> ngram_stats js_object) list \<Rightarrow> recommendations" where
  "classify_all cfg ngramResults =
     fold (classify_size cfg ngramResults) (NGRAM_SIZES cfg) \<lparr> keywords' = [], negatives = [] \<rparr>"

text \<open>
  \<^verbatim>\<open>sort\<close> with the comparator \<^verbatim>\<open>b.conversions - a.conversions\<close> is a stable sort in
  decreasing order of conversions; \<^verbatim>\<open>slice(0, 100)\<close> keeps the first hundred.
\<close>

definition generateRecommendations ::
  "config \<Rightarrow> (int \<times> ngram_stats js_object) list \<Rightarrow> recommendations" where
  "generateRecommendations cfg ngramResults =
     (let recs = classify_all cfg ngramResults
      in \<lparr> keywords' = take 100 (sort_key (\<lambda>r. - kw_conversions r) (keywords' recs)),
           negatives = take 100 (sort_key (\<lambda>r. - neg_cost r) (negatives recs)) \<rparr>)"

section \<open>The run\<close>

text \<open>
  What one run computes. The script has no \<^verbatim>\<open>throw\<close> and no validation of \<^verbatim>\<open>CONFIG\<close>;
  its only early exit is the return on an empty \<^verbatim>\<open>queryData\<close>.
\<close>

datatype outcome =
  NoData
| Finished "(int \<times> ngram_stats js_object) list" recommendations

definition analyze_sizes :: "config \<Rightarrow> query_row list \<Rightarrow> (int \<times> ngram_stats js_object) list" where
  "analyze_sizes cfg queryData =
     fold (\<lambda>size' ngramResults. AList.update size' (analyzeNgrams cfg queryData size') ngramResults)
       (NGRAM_SIZES cfg) []"

definition main :: "config \<Rightarrow> query_row list \<Rightarrow> outcome" where
  "main cfg queryData =
     (if length queryData = 0 then NoData
      else (let ngramResults = analyze_sizes cfg queryData
            in Finished ngramResults (generateRecommendations cfg ngramResults)))"

section \<open>Reference notions for the statements\<close>

text \<open>
  The number of times an n-gram text occurs among the n-grams of one query, and the totals
  that the aggregation contract asks for: every field summed over the queries, once per
  occurrence.
\<close>

definition occurrences :: "config \<Rightarrow> int \<Rightarrow> string \<Rightarrow> query_row \<Rightarrow> nat" where
  "occurrences cfg n key q = count_list (generate_ngrams (query_words cfg (q_query q)) n) key"

definition spec_totals :: "config \<Rightarrow> int \<Rightarrow> query_row list \<Rightarrow> string \<Rightarrow> ngram_totals" where
  "spec_totals cfg n queryData key = \<lparr> ngram = key,
     queries = (\<Sum>q\<leftarrow>queryData. occurrences cfg n key q),
     impressions = (\<Sum>q\<leftarrow>queryData. int (occurrences cfg n key q) * q_impressions q),
     clicks = (\<Sum>q\<leftarrow>queryData. int (occurrences cfg n key q) * q_clicks q),
     cost = (\<Sum>q\<leftarrow>queryData. of_nat (occurrences cfg n key q) * q_cost q),
     conversions = (\<Sum>q\<leftarrow>queryData. of_nat (occurrences cfg n key q) * q_conversions q),
     conversionValue = (\<Sum>q\<leftarrow>queryData. of_nat (occurrences cfg n key q) * q_conversionValue q) \<rparr>"

text \<open>\<^verbatim>\<open>key.split(' ')\<close>: the pieces between single spaces.\<close>

fun split_sp :: "string \<Rightarrow> string list" where
  "split_sp [] = [[]]"
| "split_sp (c # cs) =
     (if c = CHR '' '' then [] # split_sp cs
      else (case split_sp cs of [] \<Rightarrow> [[c]] | p # ps \<Rightarrow> (c # p) # ps))"

text \<open>Auxiliary readings of the aggregate store, used in the proofs.\<close>

definition entry_or_new :: "ngram_totals js_object \<Rightarrow> string \<Rightarrow> ngram_totals" where
  "entry_or_new ngrams key = (case map_of ngrams key of None \<Rightarrow> new_entry key | Some e \<Rightarrow> e)"

definition add_times :: "nat \<Rightarrow> query_row \<Rightarrow> ngram_totals \<Rightarrow> ngram_totals" where
  "add_times c q e = e \<lparr> queries := queries e + c,
     impressions := impressions e + int c * q_impressions q,
     clicks := clicks e + int c * q_clicks q,
     cost := cost e + of_nat c * q_cost q,
     conversions := conversions e + of_nat c * q_conversions q,
     conversionValue := conversionValue e + of_nat c * q_conversionValue q \<rparr>"

text \<open>
  The two tests of the classification loop, and what one configured size contributes to
  each list.
\<close>

definition is_keyword_opportunity :: "config \<Rightarrow> ngram_stats \<Rightarrow> bool" where
  "is_keyword_opportunity cfg ng \<longleftrightarrow>
     impressions ng \<ge> MIN_IMPRESSIONS cfg \<and> clicks ng \<ge> MIN_CLICKS cfg
     \<and> (ctr ng \<ge> HIGH_CTR_THRESHOLD cfg \<or> convRate ng \<ge> HIGH_CONV_RATE cfg)"

definition is_negative_candidate :: "config \<Rightarrow> ngram_stats \<Rightarrow> bool" where
  "is_negative_candidate cfg ng \<longleftrightarrow>
     impressions ng \<ge> MIN_IMPRESSIONS cfg \<and> clicks ng \<ge> MIN_CLICKS cfg
     \<and> (ctr ng \<le> LOW_CTR_THRESHOLD cfg
        \<or> (TARGET_CPA cfg > 0 \<and> cpa ng > TARGET_CPA cfg * HIGH_CPA_MULTIPLIER cfg))"

definition keyword_part :: "config \<Rightarrow> (int \<times> ngram_stats js_object) list \<Rightarrow> int \<Rightarrow> keyword_rec list" where
  "keyword_part cfg ngramResults size' =
     (case map_of ngramResults size' of
        None \<Rightarrow> []
      | Some ngrams \<Rightarrow>
          map (keyword_of cfg size') (filter (is_keyword_opportunity cfg) (map snd (for_in ngrams))))"

definition negative_part :: "config \<Rightarrow> (int \<times> ngram_stats js_object) list \<Rightarrow> int \<Rightarrow> negative_rec list" where
  "negative_part cfg ngramResults size' =
     (case map_of ngramResults size' of
        None \<Rightarrow> []
      | Some ngrams \<Rightarrow>
          map (negative_of cfg size') (filter (is_negative_candidate cfg) (map snd (for_in ngrams))))"

definition wf_ngrams :: "ngram_stats js_object \<Rightarrow> bool" where
  "wf_ngrams ngrams \<longleftrightarrow> distinct (map fst ngrams) \<and> list_all (\<lambda>(key, e). ngram e = key) ngrams"

section \<open>Example inputs\<close>

definition shoes_row :: query_row where
  "shoes_row = \<lparr> q_query = ''buy cheap shoes'', q_campaign = ''Shoes'', q_impressions = 100,
     q_clicks = 10, q_cost = 20, q_conversions = 0, q_conversionValue = 0 \<rparr>"

definition shoes_totals :: ngram_totals where
  "shoes_totals = \<lparr> ngram = ''shoes'', queries = 1, impressions = 100, clicks = 10, cost = 20,
     conversions = 0, conversionValue = 0 \<rparr>"

definition red_row :: query_row where
  "red_row = \<lparr> q_query = ''red shoes red shoes'', q_campaign = ''Shoes'', q_impressions = 60,
     q_clicks = 3, q_cost = 5 / 2, q_conversions = 1 / 2, q_conversionValue = 10 \<rparr>"

definition idle_row :: query_row where
  "idle_row = \<lparr> q_query = ''free wallpaper'', q_campaign = ''Shoes'', q_impressions = 200,
     q_clicks = 0, q_cost = 0, q_conversions = 0, q_conversionValue = 0 \<rparr>"

definition shoes_stats :: ngram_stats where
  "shoes_stats = \<lparr> ngram = ''shoes'', queries = 1, impressions = 100, clicks = 10, cost = 20,
     conversions = 0, conversionValue = 0, ctr = 1 / 10, cpc = 2, convRate = 0, cpa = 0,
     roas = 0 \<rparr>"

definition slow_row :: query_row where
  "slow_row = \<lparr> q_query = ''wallpaper'', q_campaign = ''Shoes'', q_impressions = 1000,
     q_clicks = 8, q_cost = 4, q_conversions = 0, q_conversionValue = 0 \<rparr>"

definition slow_stats :: ngram_stats where
  "slow_stats = \<lparr> ngram = ''wallpaper'', queries = 1, impressions = 1000, clicks = 8, cost = 4,
     conversions = 0, conversionValue = 0, ctr = 1 / 125, cpc = 1 / 2, convRate = 0, cpa = 0,
     roas = 0 \<rparr>"

definition one_size :: config where
  "one_size = CONFIG \<lparr> NGRAM_SIZES := [1] \<rparr>"

definition many_entry :: "nat \<Rightarrow> string \<times> ngram_stats" where
  "many_entry i = (replicate (i + 2) (CHR ''a''),
     derive \<lparr> ngram = replicate (i + 2) (CHR ''a''), queries = 1, impressions = 100,
       clicks = 10, cost = 1, conversions = of_nat (100 - i), conversionValue = 0 \<rparr>)"

definition many_ngrams :: "ngram_stats js_object" where
  "many_ngrams = map many_entry [0 ..< 101]"

section \<open>The n-gram generator\<close>

lemma slice_window:
  assumes "0 \<le> i" "1 \<le> n" "i \<le> int (length ws) - n"
  shows "slice ws i (i + n) = take (nat n) (drop (nat i) ws)"
proof -
  have "min i (int (length ws)) = i" "min (i + n) (int (length ws)) = i + n"
    using assms by auto
  moreover have "\<not> i < 0" "\<not> i + n < 0" using assms by auto
  ultimately show ?thesis by (simp add: slice_def Let_def)
qed

lemma ngrams_from_eq:
  "0 \<le> i \<Longrightarrow> 1 \<le> n \<Longrightarrow>
   ngrams_from ws n i =
     map (\<lambda>j. join_sp (take (nat n) (drop j ws))) [nat i ..< Suc (length ws) - nat n]"
proof (induction ws n i rule: ngrams_from.induct)
  case (1 ws n i)
  show ?case
  proof (cases "i \<le> int (length ws) - n")
    case True
    have lt: "nat i < Suc (length ws) - nat n" using True 1(2,3) by linarith
    have nx: "nat (i + 1) = Suc (nat i)" using 1(2) by simp
    have "ngrams_from ws n i = join_sp (slice ws i (i + n)) # ngrams_from ws n (i + 1)"
      using True by (subst ngrams_from.simps) simp
    also have "ngrams_from ws n (i + 1) =
        map (\<lambda>j. join_sp (take (nat n) (drop j ws))) [Suc (nat i) ..< Suc (length ws) - nat n]"
      using 1(1)[OF True] 1(2,3) nx by simp
    finally show ?thesis
      using lt slice_window[OF 1(2) 1(3) True] by (simp add: upt_conv_Cons)
  next
    case False
    have "\<not> nat i < Suc (length ws) - nat n" using False 1(2,3) by linarith
    then show ?thesis using False by (subst ngrams_from.simps) simp
  qed
qed

lemma generate_ngrams_eq:
  "1 \<le> n \<Longrightarrow> generate_ngrams ws n =
     map (\<lambda>i. join_sp (take (nat n) (drop i ws))) [0 ..< Suc (length ws) - nat n]"
  using ngrams_from_eq[of 0 n ws] by (simp add: generate_ngrams_def)

text \<open>
  C4. For a token sequence of length \<open>L\<close> and a size \<open>n \<ge> 1\<close> the loop produces, from
  left to right, the space-joined windows of \<open>n\<close> consecutive tokens starting at the
  indices \<open>0, ..., L - n\<close>: that is \<open>L - n + 1\<close> strings when \<open>n \<le> L\<close> and none when
  \<open>L < n\<close>.
\<close>

theorem generate_ngrams_windows:
  assumes "1 \<le> n"
  shows "generate_ngrams ws n =
           map (\<lambda>i. join_sp (take (nat n) (drop i ws))) [0 ..< Suc (length ws) - nat n]
         \<and> (\<forall>i < Suc (length ws) - nat n. length (take (nat n) (drop i ws)) = nat n)
         \<and> (n \<le> int (length ws) \<longrightarrow> int (length (generate_ngrams ws n)) = int (length ws) - n + 1)
         \<and> (int (length ws) < n \<longrightarrow> generate_ngrams ws n = [])"
proof -
  have eq: "generate_ngrams ws n =
           map (\<lambda>i. join_sp (take (nat n) (drop i ws))) [0 ..< Suc (length ws) - nat n]"
    using assms by (rule generate_ngrams_eq)
  have len: "\<forall>i < Suc (length ws) - nat n. length (take (nat n) (drop i ws)) = nat n"
    using assms by auto
  have a: "n \<le> int (length ws) \<longrightarrow> int (length (generate_ngrams ws n)) = int (length ws) - n + 1"
    using assms by (auto simp: eq)
  have b: "int (length ws) < n \<longrightarrow> generate_ngrams ws n = []"
    using assms by (auto simp: eq)
  show ?thesis using eq len a b by blast
qed

theorem generate_ngrams_windows_witness:
  "(1::int) \<le> 2
   \<and> generate_ngrams [''buy'', ''cheap'', ''shoes''] 2 = [''buy cheap'', ''cheap shoes'']
   \<and> generate_ngrams [''buy''] 2 = []"
proof -
  have h: "(1::int) \<le> 2" by simp
  have "generate_ngrams [''buy'', ''cheap'', ''shoes''] 2 =
          map (\<lambda>i. join_sp (take (nat 2) (drop i [''buy'', ''cheap'', ''shoes''])))
            [0 ..< Suc (length [''buy'', ''cheap'', ''shoes'']) - nat 2]"
    using generate_ngrams_windows[OF h, of "[''buy'', ''cheap'', ''shoes'']"] by blast
  moreover have "generate_ngrams [''buy''] 2 = []"
    using generate_ngrams_windows[OF h, of "[''buy'']"] by simp
  ultimately show ?thesis by (simp add: upt_rec numeral_2_eq_2)
qed

section \<open>The derived metrics\<close>

text \<open>
  C5. For an aggregate whose sums are not negative (they are sums of the non-negative
  fields of report rows), each derived metric is the quotient named by the data model
  when its denominator is not zero and is 0 when the denominator is zero. The function is
  total: no division is evaluated at a zero denominator.
\<close>

theorem derive_metrics:
  assumes "0 \<le> impressions e" and "0 \<le> clicks e" and "0 \<le> cost e" and "0 \<le> conversions e"
  shows "ctr (derive e) = (if impressions e = 0 then 0 else of_int (clicks e) / of_int (impressions e))
       \<and> cpc (derive e) = (if clicks e = 0 then 0 else cost e / of_int (clicks e))
       \<and> convRate (derive e) = (if clicks e = 0 then 0 else conversions e / of_int (clicks e))
       \<and> cpa (derive e) = (if conversions e = 0 then 0 else cost e / conversions e)
       \<and> roas (derive e) = (if cost e = 0 then 0 else conversionValue e / cost e)"
  using assms by (simp add: derive_def)

theorem derive_metrics_witness:
  "0 \<le> impressions shoes_totals \<and> 0 \<le> clicks shoes_totals \<and> 0 \<le> cost shoes_totals
   \<and> 0 \<le> conversions shoes_totals
   \<and> ctr (derive shoes_totals) = 1 / 10 \<and> cpc (derive shoes_totals) = 2
   \<and> convRate (derive shoes_totals) = 0 \<and> cpa (derive shoes_totals) = 0
   \<and> roas (derive shoes_totals) = 0"
proof -
  have h: "0 \<le> impressions shoes_totals" "0 \<le> clicks shoes_totals" "0 \<le> cost shoes_totals"
    "0 \<le> conversions shoes_totals"
    by (simp_all add: shoes_totals_def)
  show ?thesis using h derive_metrics[OF h] by (simp add: shoes_totals_def)
qed

section \<open>The tokenizer\<close>

text \<open>
  Outside the names inherited from \<^verbatim>\<open>Object.prototype\<close> the tokenizer keeps exactly the
  pieces longer than one character that are not configured stop words.
\<close>

lemma tokenize_without_inherited_names:
  assumes "\<forall>w \<in> set (split_ws (toLowerCase raw)). w \<notin> set object_prototype_props"
  shows "tokenize cfg raw =
           filter (\<lambda>w. length w > 1 \<and> w \<notin> set (STOP_WORDS cfg)) (split_ws (toLowerCase raw))"
  unfolding tokenize_def query_words_def stopWords_def
  using assms by (intro filter_cong) auto

lemma split_ws_first_piece: "split_ws s \<noteq> []"
  by (induction s rule: split_ws.induct) (auto split: list.splits)

text \<open>An empty or blank query has no token.\<close>

lemma toLowerChar_ws: "isWhiteSpace c \<Longrightarrow> toLowerChar c = c"
  by (auto simp: isWhiteSpace_def toLowerChar_def Let_def)

lemma split_ws_blank:
  "\<forall>c \<in> set s. isWhiteSpace c \<Longrightarrow> \<forall>p \<in> set (split_ws s). p = []"
proof (cases s)
  case Nil
  then show ?thesis by simp
next
  case (Cons c cs)
  assume a: "\<forall>c \<in> set s. isWhiteSpace c"
  then have d: "dropWhile isWhiteSpace cs = []" using Cons by simp
  have "isWhiteSpace c" using a Cons by simp
  then show ?thesis unfolding Cons by (simp add: d)
qed

lemma tokenize_blank:
  assumes "\<forall>c \<in> set raw. isWhiteSpace c"
  shows "tokenize cfg raw = []"
proof -
  have "toLowerCase raw = raw"
    unfolding toLowerCase_def using assms by (simp add: map_idI toLowerChar_ws)
  moreover have "\<forall>p \<in> set (split_ws raw). p = []"
    using assms by (rule split_ws_blank)
  ultimately show ?thesis
    by (auto simp: tokenize_def query_words_def filter_empty_conv)
qed

text \<open>
  C6, evaluated at a query that holds the word \<^verbatim>\<open>constructor\<close>: the word is longer than
  one character and is not a configured stop word, and the tokenizer drops it, because
  \<^verbatim>\<open>stopWords['constructor']\<close> reads the inherited function.
\<close>

theorem tokenize_drops_constructor:
  "tokenize CONFIG ''Lego constructor set'' = [''lego'', ''set'']
   \<and> ''constructor'' \<notin> set (STOP_WORDS CONFIG) \<and> length ''constructor'' > 1"
  by code_simp

section \<open>Aggregation\<close>

text \<open>No n-gram that the loop produces is a name inherited from \<^verbatim>\<open>Object.prototype\<close>.\<close>

lemma set_slice: "set (slice xs a b) \<subseteq> set xs"
  unfolding slice_def Let_def
  by (meson set_take_subset set_drop_subset subset_trans)

lemma ngrams_from_joins:
  "k \<in> set (ngrams_from ws n i) \<Longrightarrow> \<exists>xs. k = join_sp xs \<and> set xs \<subseteq> set ws"
proof (induction ws n i rule: ngrams_from.induct)
  case (1 ws n i)
  show ?case
  proof (cases "i \<le> int (length ws) - n")
    case True
    then have "k = join_sp (slice ws i (i + n)) \<or> k \<in> set (ngrams_from ws n (i + 1))"
      using 1(2) by (subst (asm) ngrams_from.simps) simp
    then show ?thesis
    proof
      assume "k = join_sp (slice ws i (i + n))"
      moreover have "set (slice ws i (i + n)) \<subseteq> set ws" by (rule set_slice)
      ultimately show ?thesis by (intro exI[of _ "slice ws i (i + n)"]) simp
    next
      assume "k \<in> set (ngrams_from ws n (i + 1))"
      then show ?thesis by (rule 1(1)[OF True])
    qed
  next
    case False
    then show ?thesis using 1(2) by (subst (asm) ngrams_from.simps) simp
  qed
qed

lemma space_in_join: "CHR '' '' \<in> set (join_sp (a # b # xs))"
  by simp

lemma no_space_in_prototype_props: "p \<in> set object_prototype_props \<Longrightarrow> CHR '' '' \<notin> set p"
  by (auto simp: object_prototype_props_def)

lemma join_not_inherited:
  assumes "\<forall>w \<in> set xs. w \<notin> set object_prototype_props"
  shows "join_sp xs \<notin> set object_prototype_props"
proof (cases xs)
  case Nil
  then show ?thesis by (simp add: object_prototype_props_def)
next
  case (Cons a ys)
  show ?thesis
  proof (cases ys)
    case Nil
    then show ?thesis using assms Cons by simp
  next
    case (Cons b zs)
    then show ?thesis using \<open>xs = a # ys\<close> space_in_join no_space_in_prototype_props by blast
  qed
qed

lemma query_words_not_inherited:
  "w \<in> set (query_words cfg s) \<Longrightarrow> w \<notin> set object_prototype_props"
  by (simp add: query_words_def stopWords_def)

lemma generated_not_inherited:
  assumes "k \<in> set (generate_ngrams (query_words cfg s) n)"
  shows "k \<notin> set object_prototype_props"
proof -
  obtain xs where "k = join_sp xs" "set xs \<subseteq> set (query_words cfg s)"
    using assms ngrams_from_joins unfolding generate_ngrams_def by blast
  then show ?thesis using join_not_inherited query_words_not_inherited by blast
qed

lemma add_times_0: "add_times 0 q e = e"
  by (simp add: add_times_def)

lemma add_query_add_times: "add_times c q (add_query q e) = add_times (Suc c) q e"
  by (simp add: add_times_def add_query_def algebra_simps)

lemma map_of_count_ngram_None:
  "k \<notin> set object_prototype_props \<Longrightarrow>
   map_of (count_ngram q k m) key = None \<longleftrightarrow> map_of m key = None \<and> k \<noteq> key"
  by (auto simp: count_ngram_def update_conv' split: option.splits)

lemma entry_count_ngram:
  "k \<notin> set object_prototype_props \<Longrightarrow>
   entry_or_new (count_ngram q k m) key =
     (if k = key then add_query q (entry_or_new m key) else entry_or_new m key)"
  by (auto simp: count_ngram_def entry_or_new_def update_conv' split: option.splits)

lemma fold_count_ngram:
  assumes "\<forall>k \<in> set ks. k \<notin> set object_prototype_props"
  shows "(map_of (fold (count_ngram q) ks m) key = None \<longleftrightarrow> map_of m key = None \<and> count_list ks key = 0)
       \<and> entry_or_new (fold (count_ngram q) ks m) key = add_times (count_list ks key) q (entry_or_new m key)"
  using assms
proof (induction ks arbitrary: m)
  case Nil
  then show ?case by (simp add: add_times_0)
next
  case (Cons k ks)
  have k: "k \<notin> set object_prototype_props" using Cons.prems by simp
  have rest: "\<forall>k \<in> set ks. k \<notin> set object_prototype_props" using Cons.prems by simp
  note ih = Cons.IH[OF rest, of "count_ngram q k m"]
  note a = map_of_count_ngram_None[OF k, of q m key]
  note b = entry_count_ngram[OF k, of q m key]
  show ?case
  proof (cases "k = key")
    case True
    then show ?thesis using ih a b by (simp add: add_query_add_times)
  next
    case False
    then show ?thesis using ih a b by simp
  qed
qed

lemma count_query_entry:
  "(map_of (count_query cfg n q m) key = None \<longleftrightarrow> map_of m key = None \<and> occurrences cfg n key q = 0)
   \<and> entry_or_new (count_query cfg n q m) key = add_times (occurrences cfg n key q) q (entry_or_new m key)"
  unfolding count_query_def occurrences_def
  by (rule fold_count_ngram) (simp add: generated_not_inherited)

lemma fold_count_query:
  "(map_of (fold (count_query cfg n) qs m) key = None \<longleftrightarrow>
      map_of m key = None \<and> (\<Sum>q\<leftarrow>qs. occurrences cfg n key q) = 0)
   \<and> entry_or_new (fold (count_query cfg n) qs m) key =
       fold (\<lambda>q. add_times (occurrences cfg n key q) q) qs (entry_or_new m key)"
proof (induction qs arbitrary: m)
  case Nil
  then show ?case by simp
next
  case (Cons q qs)
  note ih = Cons.IH[of "count_query cfg n q m"]
  note step = count_query_entry[of cfg n q m key]
  show ?case using ih step by simp
qed

lemma fold_add_times:
  "fold (\<lambda>q. add_times (f q) q) qs e = e \<lparr>
     queries := queries e + (\<Sum>q\<leftarrow>qs. f q),
     impressions := impressions e + (\<Sum>q\<leftarrow>qs. int (f q) * q_impressions q),
     clicks := clicks e + (\<Sum>q\<leftarrow>qs. int (f q) * q_clicks q),
     cost := cost e + (\<Sum>q\<leftarrow>qs. of_nat (f q) * q_cost q),
     conversions := conversions e + (\<Sum>q\<leftarrow>qs. of_nat (f q) * q_conversions q),
     conversionValue := conversionValue e + (\<Sum>q\<leftarrow>qs. of_nat (f q) * q_conversionValue q) \<rparr>"
proof (induction qs arbitrary: e)
  case Nil
  then show ?case by simp
next
  case (Cons q qs)
  let ?e = "add_times (f q) q e"
  have "fold (\<lambda>q. add_times (f q) q) (q # qs) e = fold (\<lambda>q. add_times (f q) q) qs ?e"
    by simp
  also have "\<dots> = ?e \<lparr>
     queries := queries ?e + (\<Sum>q\<leftarrow>qs. f q),
     impressions := impressions ?e + (\<Sum>q\<leftarrow>qs. int (f q) * q_impressions q),
     clicks := clicks ?e + (\<Sum>q\<leftarrow>qs. int (f q) * q_clicks q),
     cost := cost ?e + (\<Sum>q\<leftarrow>qs. of_nat (f q) * q_cost q),
     conversions := conversions ?e + (\<Sum>q\<leftarrow>qs. of_nat (f q) * q_conversions q),
     conversionValue := conversionValue ?e + (\<Sum>q\<leftarrow>qs. of_nat (f q) * q_conversionValue q) \<rparr>"
    by (rule Cons.IH)
  also have "\<dots> = e \<lparr>
     queries := queries e + (\<Sum>q\<leftarrow>q # qs. f q),
     impressions := impressions e + (\<Sum>q\<leftarrow>q # qs. int (f q) * q_impressions q),
     clicks := clicks e + (\<Sum>q\<leftarrow>q # qs. int (f q) * q_clicks q),
     cost := cost e + (\<Sum>q\<leftarrow>q # qs. of_nat (f q) * q_cost q),
     conversions := conversions e + (\<Sum>q\<leftarrow>q # qs. of_nat (f q) * q_conversions q),
     conversionValue := conversionValue e + (\<Sum>q\<leftarrow>q # qs. of_nat (f q) * q_conversionValue q) \<rparr>"
    by (simp add: add_times_def add.assoc)
  finally show ?case .
qed

lemma fold_add_times_new:
  "fold (\<lambda>q. add_times (occurrences cfg n key q) q) qs (new_entry key) = spec_totals cfg n qs key"
  by (simp add: fold_add_times new_entry_def spec_totals_def)

lemma map_of_count_all:
  "map_of (count_all cfg queryData n) key =
     (if (\<Sum>q\<leftarrow>queryData. occurrences cfg n key q) = 0 then None
      else Some (spec_totals cfg n queryData key))"
proof -
  note f = fold_count_query[of cfg n queryData "[]" key]
  show ?thesis
  proof (cases "(\<Sum>q\<leftarrow>queryData. occurrences cfg n key q) = 0")
    case True
    then show ?thesis using f by (simp add: count_all_def)
  next
    case False
    then obtain e where e: "map_of (count_all cfg queryData n) key = Some e"
      using f by (auto simp: count_all_def)
    then have "e = entry_or_new (count_all cfg queryData n) key"
      by (simp add: entry_or_new_def)
    also have "\<dots> = spec_totals cfg n queryData key"
      using f by (simp add: count_all_def entry_or_new_def fold_add_times_new)
    finally show ?thesis using e False by simp
  qed
qed

lemma map_of_derived:
  "map_of (map (\<lambda>(key, e). (key, derive e)) m) key = map_option derive (map_of m key)"
  by (induction m) auto

lemma sum_list_map_mset:
  fixes f :: "'a \<Rightarrow> 'b::comm_monoid_add"
  assumes "mset xs = mset ys"
  shows "sum_list (map f xs) = sum_list (map f ys)"
proof -
  have "sum_mset (mset (map f xs)) = sum_mset (mset (map f ys))"
    using assms by simp
  then show ?thesis by (simp only: sum_mset_sum_list)
qed

lemma spec_totals_mset:
  assumes "mset qs' = mset qs"
  shows "spec_totals cfg n qs' key = spec_totals cfg n qs key"
  unfolding spec_totals_def
  by (simp add: sum_list_map_mset[OF assms])

text \<open>
  C3. Under every key the map holds the sums over all queries of the query's metrics, once
  per occurrence of the key among the n-grams of the query, and \<^verbatim>\<open>queries\<close> is the
  number of these occurrences; a key with no occurrence has no entry.
\<close>

theorem analyzeNgrams_totals:
  "map_of (analyzeNgrams cfg queryData n) key =
     (if (\<Sum>q\<leftarrow>queryData. occurrences cfg n key q) = 0 then None
      else Some (derive (spec_totals cfg n queryData key)))"
proof -
  have "map_of (analyzeNgrams cfg queryData n) key =
          map_option derive (map_of (count_all cfg queryData n) key)"
    unfolding analyzeNgrams_def by (rule map_of_derived)
  then show ?thesis by (simp add: map_of_count_all)
qed

theorem analyzeNgrams_totals_witness:
  "map_of (analyzeNgrams CONFIG [red_row] 2) ''red shoes'' =
     Some \<lparr> ngram = ''red shoes'', queries = 2, impressions = 120, clicks = 6, cost = 5,
            conversions = 1, conversionValue = 20, ctr = 1 / 20, cpc = 5 / 6,
            convRate = 1 / 6, cpa = 5, roas = 4 \<rparr>"
proof -
  have t: "(\<Sum>q\<leftarrow>[red_row]. occurrences CONFIG 2 ''red shoes'' q) = 2"
    by code_simp
  have d: "derive (spec_totals CONFIG 2 [red_row] ''red shoes'') =
     \<lparr> ngram = ''red shoes'', queries = 2, impressions = 120, clicks = 6, cost = 5,
       conversions = 1, conversionValue = 20, ctr = 1 / 20, cpc = 5 / 6,
       convRate = 1 / 6, cpa = 5, roas = 4 \<rparr>"
    by code_simp
  show ?thesis
    using analyzeNgrams_totals[of CONFIG "[red_row]" 2 "''red shoes''"] unfolding t d by simp
qed

text \<open>
  C8. Reordering the rows changes neither the set of keys nor the entry under any key.
\<close>

theorem analyzeNgrams_order_independent:
  assumes "mset queryData' = mset queryData"
  shows "map_of (analyzeNgrams cfg queryData' n) = map_of (analyzeNgrams cfg queryData n)
       \<and> fst ` set (analyzeNgrams cfg queryData' n) = fst ` set (analyzeNgrams cfg queryData n)"
proof -
  have tot: "\<And>key. (\<Sum>q\<leftarrow>queryData'. occurrences cfg n key q) = (\<Sum>q\<leftarrow>queryData. occurrences cfg n key q)"
    using assms by (rule sum_list_map_mset)
  have cnt: "\<And>key. map_of (count_all cfg queryData' n) key = map_of (count_all cfg queryData n) key"
    by (simp add: map_of_count_all tot spec_totals_mset[OF assms])
  have eq: "map_of (analyzeNgrams cfg queryData' n) = map_of (analyzeNgrams cfg queryData n)"
    by (rule ext) (simp add: analyzeNgrams_def map_of_derived cnt)
  have "dom (map_of (analyzeNgrams cfg queryData' n)) = dom (map_of (analyzeNgrams cfg queryData n))"
    using eq by simp
  then have "fst ` set (analyzeNgrams cfg queryData' n) = fst ` set (analyzeNgrams cfg queryData n)"
    by (simp add: dom_map_of_conv_image_fst)
  then show ?thesis using eq by simp
qed

theorem analyzeNgrams_order_independent_witness:
  "mset [shoes_row, red_row] = mset [red_row, shoes_row]
   \<and> map_of (analyzeNgrams CONFIG [shoes_row, red_row] 1)
       = map_of (analyzeNgrams CONFIG [red_row, shoes_row] 1)"
proof -
  have h: "mset [shoes_row, red_row] = mset [red_row, shoes_row]" by simp
  show ?thesis using h analyzeNgrams_order_independent[OF h, of CONFIG 1] by blast
qed

section \<open>The keys of an aggregate map\<close>

lemma split_ws_pieces:
  "\<forall>p \<in> set (split_ws s). \<forall>c \<in> set p. \<not> isWhiteSpace c"
proof (induction s rule: split_ws.induct)
  case 1
  then show ?case by simp
next
  case (2 d ds)
  show ?case
  proof (cases "isWhiteSpace d")
    case True
    then show ?thesis using 2(1) by simp
  next
    case False
    note ih = 2(2)[OF False]
    show ?thesis
    proof (cases "split_ws ds")
      case Nil
      then show ?thesis using False by simp
    next
      case (Cons p ps)
      then show ?thesis using False ih by simp
    qed
  qed
qed

lemma split_ws_no_ws:
  "p \<in> set (split_ws s) \<Longrightarrow> c \<in> set p \<Longrightarrow> \<not> isWhiteSpace c"
  using split_ws_pieces by blast

lemma space_is_ws: "isWhiteSpace (CHR '' '')"
  by (simp add: isWhiteSpace_def)

lemma query_words_props:
  assumes "w \<in> set (query_words cfg s)"
  shows "length w > 1" and "w \<notin> set (STOP_WORDS cfg)" and "CHR '' '' \<notin> set w"
proof -
  have w: "w \<in> set (split_ws s)" "length w > 1" "\<not> stopWords cfg w"
    using assms by (auto simp: query_words_def)
  show "length w > 1" by (rule w(2))
  show "w \<notin> set (STOP_WORDS cfg)" using w(3) by (simp add: stopWords_def)
  show "CHR '' '' \<notin> set w" using split_ws_no_ws[OF w(1)] space_is_ws by blast
qed

lemma split_sp_word: "CHR '' '' \<notin> set w \<Longrightarrow> split_sp w = [w]"
  by (induction w) auto

lemma split_sp_append:
  "CHR '' '' \<notin> set w \<Longrightarrow> split_sp (w @ CHR '' '' # rest) = w # split_sp rest"
  by (induction w) auto

lemma split_sp_join:
  "xs \<noteq> [] \<Longrightarrow> \<forall>w \<in> set xs. CHR '' '' \<notin> set w \<Longrightarrow> split_sp (join_sp xs) = xs"
proof (induction xs rule: join_sp.induct)
  case 1
  then show ?case by simp
next
  case (2 w)
  then show ?case by (simp add: split_sp_word)
next
  case (3 w v ws)
  then show ?case by (simp add: split_sp_append)
qed

lemma distinct_count_ngram:
  "distinct (map fst m) \<Longrightarrow> distinct (map fst (count_ngram q k m))"
  by (simp add: count_ngram_def distinct_update split: option.splits)

lemma distinct_fold_count_ngram:
  "distinct (map fst m) \<Longrightarrow> distinct (map fst (fold (count_ngram q) ks m))"
  by (induction ks arbitrary: m) (simp_all add: distinct_count_ngram)

lemma distinct_fold_count_query:
  "distinct (map fst m) \<Longrightarrow> distinct (map fst (fold (count_query cfg n) qs m))"
  by (induction qs arbitrary: m) (simp_all add: count_query_def distinct_fold_count_ngram)

lemma map_fst_derived: "map fst (map (\<lambda>(key, e). (key, derive e)) m) = map fst m"
  by (induction m) auto

lemma distinct_analyzeNgrams: "distinct (map fst (analyzeNgrams cfg queryData n))"
  unfolding analyzeNgrams_def map_fst_derived count_all_def
  by (rule distinct_fold_count_query) simp

lemma sum_list_pos_member:
  fixes f :: "'a \<Rightarrow> nat"
  shows "sum_list (map f xs) \<noteq> 0 \<Longrightarrow> \<exists>x \<in> set xs. f x \<noteq> 0"
  by (induction xs) auto

text \<open>
  C10 as the code has it. For a size \<open>n \<ge> 1\<close>, every key of the map splits on single
  spaces into exactly \<open>n\<close> tokens, each longer than one character and not a configured
  stop word, and its entry counts at least one occurrence.
\<close>

theorem analyzeNgrams_keys:
  assumes "1 \<le> n" and "(key, e) \<in> set (analyzeNgrams cfg queryData n)"
  shows "length (split_sp key) = nat n
       \<and> (\<forall>t \<in> set (split_sp key). length t > 1 \<and> t \<notin> set (STOP_WORDS cfg))
       \<and> queries e \<ge> 1"
proof -
  have look: "map_of (analyzeNgrams cfg queryData n) key = Some e"
    using assms(2) distinct_analyzeNgrams by (rule_tac map_of_is_SomeI)
  have "map_of (analyzeNgrams cfg queryData n) key =
          map_option derive (map_of (count_all cfg queryData n) key)"
    unfolding analyzeNgrams_def by (rule map_of_derived)
  then have tot: "(\<Sum>q\<leftarrow>queryData. occurrences cfg n key q) \<noteq> 0"
    and e: "e = derive (spec_totals cfg n queryData key)"
    using look by (auto simp: map_of_count_all split: if_splits)
  have "queries e = (\<Sum>q\<leftarrow>queryData. occurrences cfg n key q)"
    by (simp add: e derive_def spec_totals_def)
  then have q1: "queries e \<ge> 1"
    using tot by linarith
  obtain q where q: "q \<in> set queryData" "occurrences cfg n key q \<noteq> 0"
    using sum_list_pos_member[OF tot] by blast
  let ?ws = "query_words cfg (q_query q)"
  have "key \<in> set (generate_ngrams ?ws n)"
    using q(2) by (simp add: occurrences_def count_list_0_iff)
  then obtain i where i: "i < Suc (length ?ws) - nat n" "key = join_sp (take (nat n) (drop i ?ws))"
    using generate_ngrams_eq[OF assms(1), of ?ws] by auto
  let ?xs = "take (nat n) (drop i ?ws)"
  have len: "length ?xs = nat n" using i(1) assms(1) by auto
  have ne: "?xs \<noteq> []" using len assms(1) by auto
  have sub: "set ?xs \<subseteq> set ?ws"
    by (meson set_take_subset set_drop_subset subset_trans)
  have nosp: "\<forall>w \<in> set ?xs. CHR '' '' \<notin> set w"
    using sub query_words_props(3) by blast
  have sp: "split_sp key = ?xs"
    unfolding i(2) using ne nosp by (rule split_sp_join)
  have toks: "\<forall>t \<in> set (split_sp key). length t > 1 \<and> t \<notin> set (STOP_WORDS cfg)"
    unfolding sp using sub query_words_props(1,2) by blast
  show ?thesis using sp len toks q1 by simp
qed

theorem analyzeNgrams_keys_witness:
  "(1::int) \<le> 2
   \<and> (''red shoes'', \<lparr> ngram = ''red shoes'', queries = 2, impressions = 120, clicks = 6,
         cost = 5, conversions = 1, conversionValue = 20, ctr = 1 / 20, cpc = 5 / 6,
         convRate = 1 / 6, cpa = 5, roas = 4 \<rparr>) \<in> set (analyzeNgrams CONFIG [red_row] 2)
   \<and> length (split_sp ''red shoes'') = 2"
proof -
  have h1: "(1::int) \<le> 2" by simp
  have h2: "(''red shoes'', \<lparr> ngram = ''red shoes'', queries = 2, impressions = 120, clicks = 6,
         cost = 5, conversions = 1, conversionValue = 20, ctr = 1 / 20, cpc = 5 / 6,
         convRate = 1 / 6, cpa = 5, roas = 4 \<rparr>) \<in> set (analyzeNgrams CONFIG [red_row] 2)"
    by code_simp
  have "length (split_sp ''red shoes'') = nat 2"
    using analyzeNgrams_keys[OF h1 h2] by blast
  then show ?thesis using h1 h2 by simp
qed

text \<open>
  C10 as stated fails: the size is not validated, and for the size 0 the only key of the
  map is the empty string, which splits on single spaces into one token, of length 0.
\<close>

theorem analyzeNgrams_size_zero_key:
  "analyzeNgrams CONFIG [shoes_row] 0 =
     [([], \<lparr> ngram = [], queries = 4, impressions = 400, clicks = 40, cost = 80,
             conversions = 0, conversionValue = 0, ctr = 1 / 10, cpc = 2, convRate = 0,
             cpa = 0, roas = 0 \<rparr>)]
   \<and> split_sp [] = [[]] \<and> length (split_sp []) = 1"
  by code_simp

section \<open>The run over the configured sizes\<close>

lemma map_of_fold_update:
  "map_of (fold (\<lambda>k acc. AList.update k (f k) acc) ks acc0) k =
     (if k \<in> set ks then Some (f k) else map_of acc0 k)"
  by (induction ks arbitrary: acc0) (auto simp: update_conv')

lemma map_of_analyze_sizes:
  "map_of (analyze_sizes cfg queryData) size' =
     (if size' \<in> set (NGRAM_SIZES cfg) then Some (analyzeNgrams cfg queryData size') else None)"
  by (simp add: analyze_sizes_def map_of_fold_update)

text \<open>
  C2 as the code has it. No size list is rejected: on a non-empty \<^verbatim>\<open>queryData\<close> the run
  finishes for every size list, it stores the map of \<^verbatim>\<open>analyzeNgrams\<close> under each
  configured size and under no other, and classifies these maps. With the empty size list
  it finishes with no map and two empty recommendation lists.
\<close>

theorem main_never_rejects_sizes:
  assumes "queryData \<noteq> []"
  shows "main cfg queryData =
           Finished (analyze_sizes cfg queryData)
             (generateRecommendations cfg (analyze_sizes cfg queryData))
       \<and> (\<forall>size'. map_of (analyze_sizes cfg queryData) size' =
             (if size' \<in> set (NGRAM_SIZES cfg) then Some (analyzeNgrams cfg queryData size') else None))
       \<and> (NGRAM_SIZES cfg = [] \<longrightarrow>
             main cfg queryData = Finished [] \<lparr> keywords' = [], negatives = [] \<rparr>)"
proof -
  have a: "main cfg queryData =
           Finished (analyze_sizes cfg queryData)
             (generateRecommendations cfg (analyze_sizes cfg queryData))"
    using assms by (simp add: main_def Let_def)
  have c: "NGRAM_SIZES cfg = [] \<longrightarrow>
             main cfg queryData = Finished [] \<lparr> keywords' = [], negatives = [] \<rparr>"
    using a by (simp add: analyze_sizes_def generateRecommendations_def classify_all_def)
  show ?thesis using a c map_of_analyze_sizes by blast
qed

theorem main_never_rejects_sizes_witness:
  "[shoes_row] \<noteq> []
   \<and> main (CONFIG \<lparr> NGRAM_SIZES := [] \<rparr>) [shoes_row] = Finished [] \<lparr> keywords' = [], negatives = [] \<rparr>"
proof -
  have h: "[shoes_row] \<noteq> []" by simp
  have "NGRAM_SIZES (CONFIG \<lparr> NGRAM_SIZES := [] \<rparr>) = [] \<longrightarrow>
          main (CONFIG \<lparr> NGRAM_SIZES := [] \<rparr>) [shoes_row] =
            Finished [] \<lparr> keywords' = [], negatives = [] \<rparr>"
    using main_never_rejects_sizes[OF h, of "CONFIG \<lparr> NGRAM_SIZES := [] \<rparr>"] by blast
  then show ?thesis using h by simp
qed

text \<open>
  C2 as stated fails: with the size list \<open>[0]\<close> the run raises nothing and computes an
  aggregate for the empty n-gram, counted once per window position.
\<close>

theorem main_size_zero_runs:
  "main (CONFIG \<lparr> NGRAM_SIZES := [0] \<rparr>) [shoes_row] =
     Finished
       [(0, [([], \<lparr> ngram = [], queries = 4, impressions = 400, clicks = 40, cost = 80,
                    conversions = 0, conversionValue = 0, ctr = 1 / 10, cpc = 2, convRate = 0,
                    cpa = 0, roas = 0 \<rparr>)])]
       \<lparr> keywords' = [\<lparr> kw_ngram = [], kw_size = 0, kw_reason = ''High CTR'',
                         kw_impressions = 400, kw_clicks = 40, kw_ctr = 1 / 10,
                         kw_conversions = 0, kw_convRate = 0, kw_cpa = 0 \<rparr>],
         negatives = [] \<rparr>"
  by code_simp

section \<open>Ranking and truncation\<close>

lemma desc_sort_key:
  fixes f :: "'a \<Rightarrow> rat"
  shows "sorted_wrt (\<lambda>a b. f a \<ge> f b) (sort_key (\<lambda>r. - f r) xs)"
proof -
  have "sorted (map (\<lambda>r. - f r) (sort_key (\<lambda>r. - f r) xs))" by (rule sorted_sort_key)
  then show ?thesis by (simp add: sorted_map)
qed

lemma desc_take:
  fixes f :: "'a \<Rightarrow> rat"
  shows "sorted_wrt (\<lambda>a b. f a \<ge> f b) (take n (sort_key (\<lambda>r. - f r) xs))"
  using desc_sort_key by (rule sorted_wrt_take)

text \<open>
  C9. Each returned list has at most 100 entries (the cap is the literal of
  \<^verbatim>\<open>slice(0, 100)\<close>), the keyword list is in decreasing order of conversions and the
  negative list in decreasing order of cost, and each is the first 100 entries of a sorted
  rearrangement of everything that was classified: sorting comes before truncation.
\<close>

theorem recommendations_capped_sorted:
  "length (keywords' (generateRecommendations cfg ngramResults)) \<le> 100
   \<and> length (negatives (generateRecommendations cfg ngramResults)) \<le> 100
   \<and> sorted_wrt (\<lambda>a b. kw_conversions a \<ge> kw_conversions b)
        (keywords' (generateRecommendations cfg ngramResults))
   \<and> sorted_wrt (\<lambda>a b. neg_cost a \<ge> neg_cost b)
        (negatives (generateRecommendations cfg ngramResults))
   \<and> (\<exists>ks. mset ks = mset (keywords' (classify_all cfg ngramResults))
          \<and> sorted_wrt (\<lambda>a b. kw_conversions a \<ge> kw_conversions b) ks
          \<and> keywords' (generateRecommendations cfg ngramResults) = take 100 ks)
   \<and> (\<exists>ns. mset ns = mset (negatives (classify_all cfg ngramResults))
          \<and> sorted_wrt (\<lambda>a b. neg_cost a \<ge> neg_cost b) ns
          \<and> negatives (generateRecommendations cfg ngramResults) = take 100 ns)"
proof -
  let ?ks = "sort_key (\<lambda>r. - kw_conversions r) (keywords' (classify_all cfg ngramResults))"
  let ?ns = "sort_key (\<lambda>r. - neg_cost r) (negatives (classify_all cfg ngramResults))"
  have k: "keywords' (generateRecommendations cfg ngramResults) = take 100 ?ks"
    by (simp add: generateRecommendations_def Let_def)
  have n: "negatives (generateRecommendations cfg ngramResults) = take 100 ?ns"
    by (simp add: generateRecommendations_def Let_def)
  have ks: "mset ?ks = mset (keywords' (classify_all cfg ngramResults))" by simp
  have ns: "mset ?ns = mset (negatives (classify_all cfg ngramResults))" by simp
  have sk: "sorted_wrt (\<lambda>a b. kw_conversions a \<ge> kw_conversions b) ?ks" by (rule desc_sort_key)
  have sn: "sorted_wrt (\<lambda>a b. neg_cost a \<ge> neg_cost b) ?ns" by (rule desc_sort_key)
  have 1: "length (keywords' (generateRecommendations cfg ngramResults)) \<le> 100"
    by (simp add: k)
  have 2: "length (negatives (generateRecommendations cfg ngramResults)) \<le> 100"
    by (simp add: n)
  have 3: "sorted_wrt (\<lambda>a b. kw_conversions a \<ge> kw_conversions b)
        (keywords' (generateRecommendations cfg ngramResults))"
    unfolding k by (rule desc_take)
  have 4: "sorted_wrt (\<lambda>a b. neg_cost a \<ge> neg_cost b)
        (negatives (generateRecommendations cfg ngramResults))"
    unfolding n by (rule desc_take)
  show ?thesis using 1 2 3 4 k n ks ns sk sn by blast
qed

theorem recommendations_capped_sorted_witness:
  "length (keywords' (generateRecommendations CONFIG (analyze_sizes CONFIG [shoes_row]))) \<le> 100
   \<and> sorted_wrt (\<lambda>a b. kw_conversions a \<ge> kw_conversions b)
        (keywords' (generateRecommendations CONFIG (analyze_sizes CONFIG [shoes_row])))"
  using recommendations_capped_sorted[of CONFIG "analyze_sizes CONFIG [shoes_row]"] by blast

section \<open>Classification\<close>

lemma mset_for_in: "mset (for_in obj) = mset obj"
  unfolding for_in_def by (simp add: multiset_partition[symmetric])

lemma set_for_in: "set (for_in obj) = set obj"
  using mset_for_in by (metis set_mset_mset)

lemma keywords_classify:
  "keywords' (classify cfg size' ng recs) =
     keywords' recs @ (if is_keyword_opportunity cfg ng then [keyword_of cfg size' ng] else [])"
  by (simp add: classify_def is_keyword_opportunity_def Let_def)

lemma negatives_classify:
  "negatives (classify cfg size' ng recs) =
     negatives recs @ (if is_negative_candidate cfg ng then [negative_of cfg size' ng] else [])"
  by (simp add: classify_def is_negative_candidate_def Let_def)

lemma keywords_fold_classify:
  "keywords' (fold (\<lambda>(key, ng). classify cfg size' ng) es recs) =
     keywords' recs @ map (keyword_of cfg size') (filter (is_keyword_opportunity cfg) (map snd es))"
proof (induction es arbitrary: recs)
  case Nil
  then show ?case by simp
next
  case (Cons a es)
  obtain key ng where a: "a = (key, ng)" by (cases a)
  show ?case unfolding a by (simp add: Cons.IH keywords_classify)
qed

lemma negatives_fold_classify:
  "negatives (fold (\<lambda>(key, ng). classify cfg size' ng) es recs) =
     negatives recs @ map (negative_of cfg size') (filter (is_negative_candidate cfg) (map snd es))"
proof (induction es arbitrary: recs)
  case Nil
  then show ?case by simp
next
  case (Cons a es)
  obtain key ng where a: "a = (key, ng)" by (cases a)
  show ?case unfolding a by (simp add: Cons.IH negatives_classify)
qed

lemma keywords_classify_size:
  "keywords' (classify_size cfg ngramResults size' recs) =
     keywords' recs @ keyword_part cfg ngramResults size'"
  by (simp add: classify_size_def keyword_part_def keywords_fold_classify split: option.splits)

lemma negatives_classify_size:
  "negatives (classify_size cfg ngramResults size' recs) =
     negatives recs @ negative_part cfg ngramResults size'"
  by (simp add: classify_size_def negative_part_def negatives_fold_classify split: option.splits)

lemma keywords_fold_classify_size:
  "keywords' (fold (classify_size cfg ngramResults) sizes recs) =
     keywords' recs @ concat (map (keyword_part cfg ngramResults) sizes)"
  by (induction sizes arbitrary: recs) (simp_all add: keywords_classify_size)

lemma negatives_fold_classify_size:
  "negatives (fold (classify_size cfg ngramResults) sizes recs) =
     negatives recs @ concat (map (negative_part cfg ngramResults) sizes)"
  by (induction sizes arbitrary: recs) (simp_all add: negatives_classify_size)

lemma keywords_classify_all:
  "keywords' (classify_all cfg ngramResults) =
     concat (map (keyword_part cfg ngramResults) (NGRAM_SIZES cfg))"
  by (simp add: classify_all_def keywords_fold_classify_size)

lemma negatives_classify_all:
  "negatives (classify_all cfg ngramResults) =
     concat (map (negative_part cfg ngramResults) (NGRAM_SIZES cfg))"
  by (simp add: classify_all_def negatives_fold_classify_size)

lemma negative_of_same_test:
  "negative_of cfg s ng = negative_of cfg s' ng' \<Longrightarrow>
   is_negative_candidate cfg ng = is_negative_candidate cfg ng'"
  by (simp add: negative_of_def is_negative_candidate_def)

lemma in_negatives_classify_all:
  "x \<in> set (negatives (classify_all cfg ngramResults)) \<longleftrightarrow>
     (\<exists>s ngrams key ng. s \<in> set (NGRAM_SIZES cfg) \<and> map_of ngramResults s = Some ngrams
        \<and> (key, ng) \<in> set ngrams \<and> is_negative_candidate cfg ng \<and> x = negative_of cfg s ng)"
  unfolding negatives_classify_all negative_part_def
  by (auto simp: set_for_in split: option.splits) force+

text \<open>
  C1 as the code has it. The negative test sits inside the click floor: the classification
  loop puts an aggregate of a configured size on the negative list exactly when it has at
  least \<^verbatim>\<open>MIN_IMPRESSIONS\<close> impressions and at least \<^verbatim>\<open>MIN_CLICKS\<close> clicks and its
  CTR is low or its CPA is above the target times the multiplier.
\<close>

theorem negative_candidates_need_clicks:
  assumes "size' \<in> set (NGRAM_SIZES cfg)"
    and "map_of ngramResults size' = Some ngrams"
    and "(key, ng) \<in> set ngrams"
  shows "negative_of cfg size' ng \<in> set (negatives (classify_all cfg ngramResults)) \<longleftrightarrow>
           impressions ng \<ge> MIN_IMPRESSIONS cfg \<and> clicks ng \<ge> MIN_CLICKS cfg
           \<and> (ctr ng \<le> LOW_CTR_THRESHOLD cfg
              \<or> (TARGET_CPA cfg > 0 \<and> cpa ng > TARGET_CPA cfg * HIGH_CPA_MULTIPLIER cfg))"
proof -
  let ?x = "negative_of cfg size' ng"
  let ?all = "negatives (classify_all cfg ngramResults)"
  have "?x \<in> set ?all \<longleftrightarrow> is_negative_candidate cfg ng"
  proof
    assume "?x \<in> set ?all"
    then obtain s ng' where "is_negative_candidate cfg ng'" and "?x = negative_of cfg s ng'"
      unfolding in_negatives_classify_all by blast
    then show "is_negative_candidate cfg ng" using negative_of_same_test by blast
  next
    assume "is_negative_candidate cfg ng"
    then show "?x \<in> set ?all"
      unfolding in_negatives_classify_all using assms by blast
  qed
  then show ?thesis by (simp add: is_negative_candidate_def)
qed

lemma slow_eval:
  "analyze_sizes CONFIG [slow_row] = [(1, [(''wallpaper'', slow_stats)]), (2, []), (3, [])]"
  by code_simp

theorem negative_candidates_need_clicks_witness:
  "1 \<in> set (NGRAM_SIZES CONFIG)
   \<and> map_of (analyze_sizes CONFIG [slow_row]) 1 = Some [(''wallpaper'', slow_stats)]
   \<and> (''wallpaper'', slow_stats) \<in> set [(''wallpaper'', slow_stats)]
   \<and> impressions slow_stats \<ge> MIN_IMPRESSIONS CONFIG \<and> clicks slow_stats \<ge> MIN_CLICKS CONFIG
   \<and> ctr slow_stats \<le> LOW_CTR_THRESHOLD CONFIG
   \<and> negative_of CONFIG 1 slow_stats
        \<in> set (negatives (classify_all CONFIG (analyze_sizes CONFIG [slow_row])))"
proof -
  have h1: "1 \<in> set (NGRAM_SIZES CONFIG)" by (simp add: CONFIG_def)
  have h2: "map_of (analyze_sizes CONFIG [slow_row]) 1 = Some [(''wallpaper'', slow_stats)]"
    by (simp add: slow_eval)
  have h3: "(''wallpaper'', slow_stats) \<in> set [(''wallpaper'', slow_stats)]" by simp
  have c1: "impressions slow_stats \<ge> MIN_IMPRESSIONS CONFIG" by (simp add: slow_stats_def CONFIG_def)
  have c2: "clicks slow_stats \<ge> MIN_CLICKS CONFIG" by (simp add: slow_stats_def CONFIG_def)
  have c3: "ctr slow_stats \<le> LOW_CTR_THRESHOLD CONFIG" by (simp add: slow_stats_def CONFIG_def)
  have "negative_of CONFIG 1 slow_stats
        \<in> set (negatives (classify_all CONFIG (analyze_sizes CONFIG [slow_row])))"
    using negative_candidates_need_clicks[OF h1 h2 h3] c1 c2 c3 by blast
  then show ?thesis using h1 h2 h3 c1 c2 c3 by blast
qed

text \<open>
  C1 as stated fails: with the default configuration the aggregates of a query with 200
  impressions and no click have a CTR of 0, below the low-CTR threshold, and none of them
  is put on the negative list, neither by the classification loop nor in the result.
\<close>

theorem negative_candidates_ignore_idle:
  "main CONFIG [idle_row] =
     Finished
       [(1, [(''free'', \<lparr> ngram = ''free'', queries = 1, impressions = 200, clicks = 0,
                 cost = 0, conversions = 0, conversionValue = 0, ctr = 0, cpc = 0,
                 convRate = 0, cpa = 0, roas = 0 \<rparr>),
             (''wallpaper'', \<lparr> ngram = ''wallpaper'', queries = 1, impressions = 200, clicks = 0,
                 cost = 0, conversions = 0, conversionValue = 0, ctr = 0, cpc = 0,
                 convRate = 0, cpa = 0, roas = 0 \<rparr>)]),
        (2, [(''free wallpaper'', \<lparr> ngram = ''free wallpaper'', queries = 1, impressions = 200,
                 clicks = 0, cost = 0, conversions = 0, conversionValue = 0, ctr = 0, cpc = 0,
                 convRate = 0, cpa = 0, roas = 0 \<rparr>)]),
        (3, [])]
       \<lparr> keywords' = [], negatives = [] \<rparr>
   \<and> negatives (classify_all CONFIG (analyze_sizes CONFIG [idle_row])) = []
   \<and> MIN_IMPRESSIONS CONFIG = 50 \<and> LOW_CTR_THRESHOLD CONFIG = 1 / 100"
  by code_simp

section \<open>Keyword opportunities\<close>

lemma filter_distinct_key:
  "distinct (map g xs) \<Longrightarrow> x \<in> set xs \<Longrightarrow> filter (\<lambda>y. g y = g x) xs = [x]"
proof (induction xs)
  case Nil
  then show ?case by simp
next
  case (Cons a xs)
  show ?case
  proof (cases "a = x")
    case True
    have "g x \<notin> g ` set xs" using Cons.prems(1) True by simp
    then have "\<forall>y \<in> set xs. g y \<noteq> g x" by (metis imageI)
    then have "filter (\<lambda>y. g y = g x) xs = []" by (simp add: filter_empty_conv)
    then show ?thesis using True by simp
  next
    case False
    then have "x \<in> set xs" using Cons.prems(2) by simp
    moreover have "g a \<notin> g ` set xs" using Cons.prems(1) by simp
    ultimately have "g a \<noteq> g x" by (metis imageI)
    with \<open>x \<in> set xs\<close> have "x \<in> set xs \<and> g a \<noteq> g x" by simp
    then show ?thesis using Cons by simp
  qed
qed

lemma concat_single_part:
  "distinct xs \<Longrightarrow> x \<in> set xs \<Longrightarrow> \<forall>y \<in> set xs. y \<noteq> x \<longrightarrow> h y = [] \<Longrightarrow>
   concat (map h xs) = h x"
proof (induction xs)
  case Nil
  then show ?case by simp
next
  case (Cons a xs)
  show ?case
  proof (cases "a = x")
    case True
    then have "\<forall>y \<in> set xs. h y = []" using Cons.prems by auto
    then have "concat (map h xs) = []" by simp
    then show ?thesis using True by simp
  next
    case False
    then show ?thesis using Cons by auto
  qed
qed

lemma wf_ngrams_distinct_text:
  assumes "wf_ngrams ngrams"
  shows "distinct (map (\<lambda>p. ngram (snd p)) ngrams)"
proof -
  have eq: "map (\<lambda>p. ngram (snd p)) ngrams = map fst ngrams"
    using assms by (auto simp: wf_ngrams_def list_all_iff)
  have "distinct (map fst ngrams)" using assms by (simp add: wf_ngrams_def)
  then show ?thesis unfolding eq .
qed

lemma filter_for_in_text:
  assumes "wf_ngrams ngrams" and "(key, ng) \<in> set ngrams"
  shows "filter (\<lambda>p. ngram (snd p) = ngram ng) (for_in ngrams) = [(key, ng)]"
proof -
  let ?P = "\<lambda>p. ngram (snd p) = ngram ng"
  have "filter (\<lambda>p. ngram (snd p) = ngram (snd (key, ng))) ngrams = [(key, ng)]"
    using wf_ngrams_distinct_text[OF assms(1)] assms(2) by (rule filter_distinct_key)
  then have a: "filter ?P ngrams = [(key, ng)]" by simp
  have "mset (filter ?P (for_in ngrams)) = filter_mset ?P (mset (for_in ngrams))"
    by (rule mset_filter)
  also have "\<dots> = filter_mset ?P (mset ngrams)" by (simp only: mset_for_in)
  also have "\<dots> = mset (filter ?P ngrams)" by (rule mset_filter[symmetric])
  also have "\<dots> = {#(key, ng)#}" unfolding a by simp
  finally show ?thesis by (simp only: mset_single_iff)
qed

lemma filter_keyword_part:
  assumes "map_of ngramResults size' = Some ngrams" and "wf_ngrams ngrams"
    and "(key, ng) \<in> set ngrams" and "is_keyword_opportunity cfg ng"
  shows "filter (\<lambda>r. kw_ngram r = ngram ng \<and> kw_size r = size') (keyword_part cfg ngramResults size')
           = [keyword_of cfg size' ng]"
proof -
  let ?P = "\<lambda>r. kw_ngram r = ngram ng \<and> kw_size r = size'"
  have "filter ?P (keyword_part cfg ngramResults size') =
          map (keyword_of cfg size')
            (filter (is_keyword_opportunity cfg)
               (map snd (filter (\<lambda>p. ngram (snd p) = ngram ng) (for_in ngrams))))"
    unfolding keyword_part_def
    by (simp add: assms(1) filter_map o_def keyword_of_def conj_commute)
  then show ?thesis by (simp add: filter_for_in_text[OF assms(2,3)] assms(4))
qed

lemma filter_keyword_part_other:
  "s \<noteq> size' \<Longrightarrow>
   filter (\<lambda>r. kw_ngram r = t \<and> kw_size r = size') (keyword_part cfg ngramResults s) = []"
  by (auto simp: keyword_part_def filter_empty_conv keyword_of_def split: option.splits)

text \<open>
  C7. For an aggregate that passes the impression floor, the click floor and the CTR or the
  conversion-rate test, the classification step pushes exactly one keyword recommendation,
  and its reason is the conversion-rate one when the conversion rate qualifies and the CTR
  one otherwise. Over the whole classification, for an aggregate of a well-formed map
  under one of pairwise distinct configured sizes, the keyword list holds exactly one
  recommendation with its n-gram text and size.
\<close>

theorem keyword_opportunity_listed_once:
  assumes "impressions ng \<ge> MIN_IMPRESSIONS cfg"
    and "clicks ng \<ge> MIN_CLICKS cfg"
    and "ctr ng \<ge> HIGH_CTR_THRESHOLD cfg \<or> convRate ng \<ge> HIGH_CONV_RATE cfg"
  shows "keywords' (classify cfg size' ng recs) = keywords' recs @ [keyword_of cfg size' ng]
       \<and> kw_reason (keyword_of cfg size' ng) =
           (if convRate ng \<ge> HIGH_CONV_RATE cfg then ''High conversion rate'' else ''High CTR'')
       \<and> (distinct (NGRAM_SIZES cfg) \<and> size' \<in> set (NGRAM_SIZES cfg)
            \<and> map_of ngramResults size' = Some ngrams \<and> wf_ngrams ngrams
            \<and> (key, ng) \<in> set ngrams \<longrightarrow>
          filter (\<lambda>r. kw_ngram r = ngram ng \<and> kw_size r = size')
             (keywords' (classify_all cfg ngramResults)) = [keyword_of cfg size' ng])"
proof -
  let ?P = "\<lambda>r. kw_ngram r = ngram ng \<and> kw_size r = size'"
  let ?all = "keywords' (classify_all cfg ngramResults)"
  have kw: "is_keyword_opportunity cfg ng"
    using assms by (simp add: is_keyword_opportunity_def)
  have step: "keywords' (classify cfg size' ng recs) = keywords' recs @ [keyword_of cfg size' ng]"
    by (simp add: keywords_classify kw)
  have reason: "kw_reason (keyword_of cfg size' ng) =
           (if convRate ng \<ge> HIGH_CONV_RATE cfg then ''High conversion rate'' else ''High CTR'')"
    by (simp add: keyword_of_def)
  have one: "filter ?P ?all = [keyword_of cfg size' ng]"
    if d: "distinct (NGRAM_SIZES cfg)" and m: "size' \<in> set (NGRAM_SIZES cfg)"
      and l: "map_of ngramResults size' = Some ngrams" and w: "wf_ngrams ngrams"
      and e: "(key, ng) \<in> set ngrams"
  proof -
    have "filter ?P ?all =
            concat (map (\<lambda>s. filter ?P (keyword_part cfg ngramResults s)) (NGRAM_SIZES cfg))"
      by (simp add: keywords_classify_all filter_concat o_def)
    also have "\<dots> = filter ?P (keyword_part cfg ngramResults size')"
      using d m by (rule concat_single_part) (simp add: filter_keyword_part_other)
    also have "\<dots> = [keyword_of cfg size' ng]"
      using l w e kw by (rule filter_keyword_part)
    finally show ?thesis .
  qed
  show ?thesis using step reason one by blast
qed

text \<open>The maps of \<^verbatim>\<open>analyzeNgrams\<close> are well formed.\<close>

lemma wf_analyzeNgrams: "wf_ngrams (analyzeNgrams cfg queryData n)"
proof -
  have "ngram e = key" if "(key, e) \<in> set (analyzeNgrams cfg queryData n)" for key e
  proof -
    have "map_of (analyzeNgrams cfg queryData n) key = Some e"
      using that distinct_analyzeNgrams by (rule_tac map_of_is_SomeI)
    moreover have "map_of (analyzeNgrams cfg queryData n) key =
          map_option derive (map_of (count_all cfg queryData n) key)"
      unfolding analyzeNgrams_def by (rule map_of_derived)
    ultimately have "e = derive (spec_totals cfg n queryData key)"
      by (auto simp: map_of_count_all split: if_splits)
    then show ?thesis by (simp add: derive_def spec_totals_def)
  qed
  then show ?thesis
    unfolding wf_ngrams_def list_all_iff using distinct_analyzeNgrams by auto
qed

lemma shoes_eval:
  "map_of (analyze_sizes CONFIG [shoes_row]) 1 = Some (analyzeNgrams CONFIG [shoes_row] 1)"
  by (simp add: map_of_analyze_sizes CONFIG_def)

lemma shoes_member: "(''shoes'', shoes_stats) \<in> set (analyzeNgrams CONFIG [shoes_row] 1)"
  by code_simp

theorem keyword_opportunity_listed_once_witness:
  "impressions shoes_stats \<ge> MIN_IMPRESSIONS CONFIG \<and> clicks shoes_stats \<ge> MIN_CLICKS CONFIG
   \<and> ctr shoes_stats \<ge> HIGH_CTR_THRESHOLD CONFIG
   \<and> distinct (NGRAM_SIZES CONFIG) \<and> 1 \<in> set (NGRAM_SIZES CONFIG)
   \<and> map_of (analyze_sizes CONFIG [shoes_row]) 1 = Some (analyzeNgrams CONFIG [shoes_row] 1)
   \<and> wf_ngrams (analyzeNgrams CONFIG [shoes_row] 1)
   \<and> (''shoes'', shoes_stats) \<in> set (analyzeNgrams CONFIG [shoes_row] 1)
   \<and> keywords' (classify CONFIG 1 shoes_stats \<lparr> keywords' = [], negatives = [] \<rparr>)
      = [\<lparr> kw_ngram = ''shoes'', kw_size = 1, kw_reason = ''High CTR'', kw_impressions = 100,
            kw_clicks = 10, kw_ctr = 1 / 10, kw_conversions = 0, kw_convRate = 0, kw_cpa = 0 \<rparr>]
   \<and> filter (\<lambda>r. kw_ngram r = ''shoes'' \<and> kw_size r = 1)
        (keywords' (classify_all CONFIG (analyze_sizes CONFIG [shoes_row])))
      = [\<lparr> kw_ngram = ''shoes'', kw_size = 1, kw_reason = ''High CTR'', kw_impressions = 100,
            kw_clicks = 10, kw_ctr = 1 / 10, kw_conversions = 0, kw_convRate = 0, kw_cpa = 0 \<rparr>]"
proof -
  have h1: "impressions shoes_stats \<ge> MIN_IMPRESSIONS CONFIG" by (simp add: shoes_stats_def CONFIG_def)
  have h2: "clicks shoes_stats \<ge> MIN_CLICKS CONFIG" by (simp add: shoes_stats_def CONFIG_def)
  have c: "ctr shoes_stats \<ge> HIGH_CTR_THRESHOLD CONFIG" by (simp add: shoes_stats_def CONFIG_def)
  then have h3: "ctr shoes_stats \<ge> HIGH_CTR_THRESHOLD CONFIG \<or> convRate shoes_stats \<ge> HIGH_CONV_RATE CONFIG"
    by simp
  have d: "distinct (NGRAM_SIZES CONFIG)" by (simp add: CONFIG_def)
  have m: "1 \<in> set (NGRAM_SIZES CONFIG)" by (simp add: CONFIG_def)
  note l = shoes_eval
  note w = wf_analyzeNgrams[of CONFIG "[shoes_row]" 1]
  note e = shoes_member
  have k: "keyword_of CONFIG 1 shoes_stats =
      \<lparr> kw_ngram = ''shoes'', kw_size = 1, kw_reason = ''High CTR'', kw_impressions = 100,
            kw_clicks = 10, kw_ctr = 1 / 10, kw_conversions = 0, kw_convRate = 0, kw_cpa = 0 \<rparr>"
    by (simp add: keyword_of_def shoes_stats_def CONFIG_def)
  have n: "ngram shoes_stats = ''shoes''" by (simp add: shoes_stats_def)
  note t = keyword_opportunity_listed_once[OF h1 h2 h3, of 1 "\<lparr> keywords' = [], negatives = [] \<rparr>"
      "analyze_sizes CONFIG [shoes_row]" "analyzeNgrams CONFIG [shoes_row] 1" "''shoes''"]
  have a: "keywords' (classify CONFIG 1 shoes_stats \<lparr> keywords' = [], negatives = [] \<rparr>)
      = [keyword_of CONFIG 1 shoes_stats]"
    using t by simp
  have b: "filter (\<lambda>r. kw_ngram r = ngram shoes_stats \<and> kw_size r = 1)
        (keywords' (classify_all CONFIG (analyze_sizes CONFIG [shoes_row])))
      = [keyword_of CONFIG 1 shoes_stats]"
    using t d m l w e by blast
  show ?thesis using h1 h2 c d m l w e a b unfolding k n by blast
qed

text \<open>
  A map of 101 one-word n-grams, each with 100 impressions, 10 clicks and a CTR of 1/10,
  listed in decreasing order of conversions.
\<close>

lemma for_in_plain:
  assumes "\<forall>p \<in> set obj. \<not> is_array_index (fst p)"
  shows "for_in obj = obj"
proof -
  have "filter (\<lambda>(key, v). is_array_index key) obj = []"
    using assms by (auto simp: filter_empty_conv)
  moreover have "filter (\<lambda>(key, v). \<not> is_array_index key) obj = obj"
    using assms by (auto simp: filter_id_conv)
  ultimately show ?thesis by (simp add: for_in_def)
qed

lemma many_key_plain: "\<not> is_array_index (fst (many_entry i))"
  by (simp add: many_entry_def is_array_index_def isDigit_def)

lemma for_in_many: "for_in many_ngrams = many_ngrams"
  by (rule for_in_plain) (auto simp: many_ngrams_def many_key_plain)

lemma many_is_keyword: "is_keyword_opportunity one_size (snd (many_entry i))"
  by (simp add: many_entry_def is_keyword_opportunity_def derive_def one_size_def CONFIG_def)

lemma many_classified:
  "keywords' (classify_all one_size [(1, many_ngrams)]) =
     map (\<lambda>i. keyword_of one_size 1 (snd (many_entry i))) [0 ..< 101]"
proof -
  have "filter (is_keyword_opportunity one_size) (map snd many_ngrams) = map snd many_ngrams"
    by (auto simp: filter_id_conv many_ngrams_def many_is_keyword)
  then have "keyword_part one_size [(1, many_ngrams)] 1 =
      map (keyword_of one_size 1) (map snd many_ngrams)"
    by (simp add: keyword_part_def for_in_many)
  moreover have "NGRAM_SIZES one_size = [1]" by (simp add: one_size_def)
  ultimately show ?thesis
    by (simp add: keywords_classify_all many_ngrams_def o_def)
qed

lemma many_sorted:
  "sorted (map (\<lambda>r. - kw_conversions r)
     (map (\<lambda>i. keyword_of one_size 1 (snd (many_entry i))) [0 ..< 101]))"
proof -
  have "sorted_wrt (\<lambda>i j. - kw_conversions (keyword_of one_size 1 (snd (many_entry i)))
            \<le> - kw_conversions (keyword_of one_size 1 (snd (many_entry j)))) [0 ..< 101]"
  proof (rule sorted_wrt_mono_rel[OF _ sorted_wrt_upt])
    fix i j :: nat
    assume "i < j"
    then show "- kw_conversions (keyword_of one_size 1 (snd (many_entry i)))
            \<le> - kw_conversions (keyword_of one_size 1 (snd (many_entry j)))"
      by (simp add: keyword_of_def many_entry_def derive_def)
  qed
  then show ?thesis by (simp add: sorted_map o_def)
qed

lemma many_ngrams_wf: "wf_ngrams many_ngrams"
proof -
  have "map fst many_ngrams = map (\<lambda>i. replicate (i + 2) (CHR ''a'')) [0 ..< 101]"
    by (simp add: many_ngrams_def many_entry_def o_def)
  moreover have "inj_on (\<lambda>i. replicate (i + 2) (CHR ''a'')) (set [0 ..< 101])"
    by (rule inj_onI) (simp add: replicate_eq_replicate)
  ultimately have "distinct (map fst many_ngrams)"
    by (simp add: distinct_map)
  moreover have "list_all (\<lambda>(key, e). ngram e = key) many_ngrams"
    by (simp add: many_ngrams_def many_entry_def derive_def list_all_iff)
  ultimately show ?thesis by (simp add: wf_ngrams_def)
qed

text \<open>
  Classification and the returned list differ above the cap: all 101 aggregates of this
  map pass the impression floor, the click floor and the CTR test and are classified, and
  the returned keyword list, cut to 100 entries after sorting, no longer holds the
  recommendation of the last one.
\<close>

lemma returned_keywords_cut_at_cap:
  "filter (\<lambda>r. kw_ngram r = replicate 102 (CHR ''a'') \<and> kw_size r = 1)
     (keywords' (generateRecommendations one_size [(1, many_ngrams)])) = []
   \<and> many_ngrams ! 100 = (replicate 102 (CHR ''a''),
        \<lparr> ngram = replicate 102 (CHR ''a''), queries = 1, impressions = 100, clicks = 10,
          cost = 1, conversions = 0, conversionValue = 0, ctr = 1 / 10, cpc = 1 / 10,
          convRate = 0, cpa = 0, roas = 0 \<rparr>)
   \<and> length many_ngrams = 101
   \<and> NGRAM_SIZES one_size = [1] \<and> MIN_IMPRESSIONS one_size = 50 \<and> MIN_CLICKS one_size = 5
   \<and> HIGH_CTR_THRESHOLD one_size = 1 / 20"
proof -
  let ?g = "\<lambda>i. keyword_of one_size 1 (snd (many_entry i))"
  have "keywords' (generateRecommendations one_size [(1, many_ngrams)]) =
          take 100 (sort_key (\<lambda>r. - kw_conversions r) (map ?g [0 ..< 101]))"
    by (simp add: generateRecommendations_def Let_def many_classified)
  also have "\<dots> = take 100 (map ?g [0 ..< 101])"
    by (simp only: sort_key_id_if_sorted[OF many_sorted])
  also have "\<dots> = map ?g [0 ..< 100]"
    by (simp add: take_map)
  finally have out: "keywords' (generateRecommendations one_size [(1, many_ngrams)]) = map ?g [0 ..< 100]" .
  have a: "filter (\<lambda>r. kw_ngram r = replicate 102 (CHR ''a'') \<and> kw_size r = 1)
     (keywords' (generateRecommendations one_size [(1, many_ngrams)])) = []"
  proof -
    have "kw_ngram (?g i) \<noteq> replicate 102 (CHR ''a'')" if "i < 100" for i
    proof
      assume "kw_ngram (?g i) = replicate 102 (CHR ''a'')"
      then have "length (kw_ngram (?g i)) = length (replicate 102 (CHR ''a''))" by simp
      moreover have "length (kw_ngram (?g i)) = i + 2"
        by (simp add: keyword_of_def many_entry_def derive_def)
      ultimately show False using that by simp
    qed
    then show ?thesis unfolding out by (simp add: filter_empty_conv)
  qed
  have b: "many_ngrams ! 100 = (replicate 102 (CHR ''a''),
        \<lparr> ngram = replicate 102 (CHR ''a''), queries = 1, impressions = 100, clicks = 10,
          cost = 1, conversions = 0, conversionValue = 0, ctr = 1 / 10, cpc = 1 / 10,
          convRate = 0, cpa = 0, roas = 0 \<rparr>)"
    by (simp add: many_ngrams_def many_entry_def derive_def)
  have c: "length many_ngrams = 101" by (simp add: many_ngrams_def)
  have d: "NGRAM_SIZES one_size = [1] \<and> MIN_IMPRESSIONS one_size = 50 \<and> MIN_CLICKS one_size = 5
   \<and> HIGH_CTR_THRESHOLD one_size = 1 / 20"
    by (simp add: one_size_def CONFIG_def)
  show ?thesis using a b c d by blast
qed
end
